theory Spec2Isabelle
  imports Main
begin

section \<open>Flowr Timer: shared vocabulary\<close>

text \<open>
  The status strings of \<^verbatim>\<open>src/app.js\<close> (\<^verbatim>\<open>"idle"\<close>, \<^verbatim>\<open>"running"\<close>, \<^verbatim>\<open>"stopped"\<close>) and
  the fourth one that \<^verbatim>\<open>finishIfDue\<close> writes (\<^verbatim>\<open>"finished"\<close>), and the JSDoc union
  \<^verbatim>\<open>StopReason\<close>. Instants are JavaScript numbers holding integral milliseconds
  (\<^verbatim>\<open>Date.now()\<close>); they are modelled as \<open>int\<close>, and \<^verbatim>\<open>null\<close>/\<^verbatim>\<open>undefined\<close> as \<open>None\<close>.
\<close>

datatype FlowrStatus = Idle | Running | Stopped | Finished

datatype StopReason = Manual | Voice_any | Voice_keyword | Error

section \<open>Scheduled-finish evaluator (\<^verbatim>\<open>finishIfDue\<close>, src/app.js 209-220)\<close>

record FinishState =
  f_status :: FlowrStatus
  startTs :: "int option"
  autoFinishTs :: "int option"
  finishTs :: "int option"

text \<open>
  \<^verbatim>\<open>if (!state || state.status !== "running") return state;\<close>
  \<^verbatim>\<open>if (!autoFinishTs) return state;\<close> is JavaScript truthiness: it returns for
  \<^verbatim>\<open>null\<close>, \<^verbatim>\<open>undefined\<close> and for the number \<^verbatim>\<open>0\<close>.
  \<^verbatim>\<open>const finished = { ...state, finishTs: autoFinishTs }; finished.status = "finished";\<close>
\<close>

definition finishIfDue :: "FinishState option \<Rightarrow> int \<Rightarrow> FinishState option" where
  "finishIfDue state now =
     (case state of
        None \<Rightarrow> None
      | Some s \<Rightarrow>
          if f_status s \<noteq> Running then Some s
          else (case autoFinishTs s of
                  None \<Rightarrow> Some s
                | Some due \<Rightarrow>
                    if due = 0 then Some s
                    else if now < due then Some s
                    else Some (s\<lparr>finishTs := Some due, f_status := Finished\<rparr>)))"

text \<open>The record of the developer self-test at src/app.js 226-229.\<close>

definition dev_test_state :: FinishState where
  "dev_test_state =
     \<lparr>f_status = Running, startTs = Some 1000, autoFinishTs = Some 2000, finishTs = None\<rparr>"

text \<open>A running record whose scheduled finish is the number zero.\<close>

definition zero_due_state :: FinishState where
  "zero_due_state =
     \<lparr>f_status = Running, startTs = Some (-1000), autoFinishTs = Some 0, finishTs = None\<rparr>"

section \<open>Strings\<close>

text \<open>
  JavaScript strings are modelled as \<open>string\<close> over the ASCII range: \<^verbatim>\<open>trim\<close> removes
  the ASCII white space (tab, line feed, vertical tab, form feed, carriage return, space)
  from both ends, \<^verbatim>\<open>toLowerCase\<close> maps \<^verbatim>\<open>A\<close>-\<^verbatim>\<open>Z\<close> to \<^verbatim>\<open>a\<close>-\<^verbatim>\<open>z\<close>, and
  \<^verbatim>\<open>includes\<close> is the search for a contiguous occurrence.
\<close>

definition isWhiteSpace :: "char \<Rightarrow> bool" where
  "isWhiteSpace c = (let n = (of_char c :: nat) in (9 \<le> n \<and> n \<le> 13) \<or> n = 32)"

definition trim :: "string \<Rightarrow> string" where
  "trim s = rev (dropWhile isWhiteSpace (rev (dropWhile isWhiteSpace s)))"

definition toLowerChar :: "char \<Rightarrow> char" where
  "toLowerChar c =
     (let n = (of_char c :: nat) in if 65 \<le> n \<and> n \<le> 90 then char_of (n + 32) else c)"

definition toLowerCase :: "string \<Rightarrow> string" where
  "toLowerCase s = map toLowerChar s"

fun startsWith :: "string \<Rightarrow> string \<Rightarrow> bool" where
  "startsWith hay [] = True"
| "startsWith [] (n # ns) = False"
| "startsWith (h # hs) (n # ns) = (h = n \<and> startsWith hs ns)"

fun includes_str :: "string \<Rightarrow> string \<Rightarrow> bool" where
  "includes_str [] needle = startsWith [] needle"
| "includes_str (h # hs) needle = (startsWith (h # hs) needle \<or> includes_str hs needle)"

text \<open>The spec's words for the keyword rule: the needle occurs contiguously in the hay.\<close>

definition contains_substring :: "string \<Rightarrow> string \<Rightarrow> bool" where
  "contains_substring hay needle = (\<exists>before after. hay = before @ needle @ after)"

section \<open>Session history in localStorage (src/app.js 150-170, 242-247)\<close>

datatype VoiceMode = Any | Keyword

text \<open>
  The \<^verbatim>\<open>FlowrSession\<close> object built in \<^verbatim>\<open>handleStop\<close>. \<open>startedAt\<close> and \<open>endedAt\<close> are the
  ISO strings of \<^verbatim>\<open>new Date(ms).toISOString()\<close>, kept as the instant they denote.
\<close>

record FlowrSession =
  session_id :: string
  startedAt :: int
  endedAt :: int
  durationMs :: int
  session_stopReason :: StopReason
  voiceEnabled :: bool
  voiceMode :: "VoiceMode option"
  keyword :: "string option"
  transcriptSnippet :: "string option"

text \<open>
  The storage slot \<^verbatim>\<open>flowr:sessions:v1\<close>. Its text is represented by what
  \<^verbatim>\<open>localStorage.getItem\<close> and \<^verbatim>\<open>JSON.parse\<close> make of it: no entry (\<^verbatim>\<open>null\<close>), the
  empty string, a text on which \<^verbatim>\<open>JSON.parse\<close> throws, a text that parses to a value
  that is not an array, or a text that parses to an array of elements.
  \<^verbatim>\<open>JSON.stringify\<close> of an array is a text of the last kind with the same elements.
\<close>

datatype 'a slot = Absent | Empty_text | Invalid_json | Non_array | Json_array "'a list"

datatype exn = StorageError | SyntaxError | InvalidStateError

definition HISTORY_LIMIT :: nat where
  "HISTORY_LIMIT = 10"

text \<open>
  The body of the \<^verbatim>\<open>try\<close> block of \<^verbatim>\<open>loadHistory\<close>; \<open>Inl\<close> is a thrown exception
  (\<^verbatim>\<open>getItem\<close> refusing access, or \<^verbatim>\<open>JSON.parse\<close> rejecting the text).
\<close>

definition loadHistory_try :: "bool \<Rightarrow> 'a slot \<Rightarrow> exn + 'a list" where
  "loadHistory_try getItemThrows sl =
     (if getItemThrows then Inl StorageError
      else (case sl of
              Absent \<Rightarrow> Inr []
            | Empty_text \<Rightarrow> Inr []
            | Invalid_json \<Rightarrow> Inl SyntaxError
            | Non_array \<Rightarrow> Inr []
            | Json_array xs \<Rightarrow> Inr xs))"

text \<open>\<^verbatim>\<open>try { ... } catch { return []; }\<close>\<close>

definition loadHistory :: "bool \<Rightarrow> 'a slot \<Rightarrow> 'a list" where
  "loadHistory getItemThrows sl =
     (case loadHistory_try getItemThrows sl of Inl e \<Rightarrow> [] | Inr xs \<Rightarrow> xs)"

text \<open>
  \<^verbatim>\<open>localStorage.setItem(HISTORY_KEY, JSON.stringify(sessions.slice(0, HISTORY_LIMIT)))\<close>
  inside \<^verbatim>\<open>try\<close>/\<^verbatim>\<open>catch\<close>: a throwing \<^verbatim>\<open>setItem\<close> leaves the slot as it was.
\<close>

definition saveHistory :: "bool \<Rightarrow> 'a list \<Rightarrow> 'a slot \<Rightarrow> 'a slot" where
  "saveHistory setItemThrows sessions sl =
     (if setItemThrows then sl else Json_array (take HISTORY_LIMIT sessions))"

definition pushSessionToHistory :: "bool \<Rightarrow> bool \<Rightarrow> 'a \<Rightarrow> 'a slot \<Rightarrow> 'a slot" where
  "pushSessionToHistory getItemThrows setItemThrows session sl =
     (let existing = loadHistory getItemThrows sl;
          next = take HISTORY_LIMIT (session # existing)
      in saveHistory setItemThrows next sl)"

text \<open>Appending a sequence of sessions, oldest first, with a storage that works.\<close>

fun push_all :: "'a list \<Rightarrow> 'a slot \<Rightarrow> 'a slot" where
  "push_all [] sl = sl"
| "push_all (x # xs) sl = push_all xs (pushSessionToHistory False False x sl)"

section \<open>The timer of src/app.js\<close>

text \<open>
  The \<^verbatim>\<open>SpeechRecognition\<close> object as far as the program touches it: whether its
  \<^verbatim>\<open>onend\<close> property holds the restart handler (\<open>False\<close> is \<^verbatim>\<open>null\<close>), and how often
  \<^verbatim>\<open>start()\<close> and \<^verbatim>\<open>stop()\<close> have been called on it.
\<close>

record SpeechRecognition =
  onend :: bool
  starts :: nat
  stops :: nat

text \<open>
  The module's variables, the three form controls that the handlers read
  (\<^verbatim>\<open>els.voiceEnabled.checked\<close>, the value of the checked \<^verbatim>\<open>voiceMode\<close> radio button,
  \<^verbatim>\<open>els.keywordInput.value\<close>) and the history slot. Display text and the animation frame
  handle do not influence any decision and are left out.
\<close>

record app =
  status :: FlowrStatus
  startedAtMs :: "int option"
  endedAtMs :: "int option"
  stopReason :: "StopReason option"
  recognition :: "SpeechRecognition option"
  speechSupported :: bool
  recognitionStarting :: bool
  lastTranscript :: string
  voiceEnabled_checked :: bool
  voiceMode_value :: "string option"
  keywordInput_value :: string
  history_slot :: "FlowrSession slot"

text \<open>
  What a handler reads from its environment while it runs: \<^verbatim>\<open>nowMs()\<close>, \<^verbatim>\<open>safeUUID()\<close>,
  whether \<^verbatim>\<open>r.start()\<close> throws (the source expects it to when the recogniser is already
  started), and whether the storage calls throw.
\<close>

record env =
  nowMs :: int
  uuid :: string
  startThrows :: bool
  getItemThrows :: bool
  setItemThrows :: bool

definition getVoiceMode :: "app \<Rightarrow> VoiceMode" where
  "getVoiceMode s = (if voiceMode_value s = Some ''keyword'' then Keyword else Any)"

definition getKeyword :: "app \<Rightarrow> string" where
  "getKeyword s = trim (keywordInput_value s)"

text \<open>
  \<^verbatim>\<open>ensureRecognition\<close>: \<^verbatim>\<open>null\<close> when speech is unsupported, the existing object if
  there is one, otherwise a new object with the restart handler as its \<^verbatim>\<open>onend\<close>, which
  is stored in \<^verbatim>\<open>recognition\<close>. The result is the returned object and the new state.
\<close>

definition ensureRecognition :: "app \<Rightarrow> SpeechRecognition option \<times> app" where
  "ensureRecognition s =
     (if \<not> speechSupported s then (None, s)
      else (case recognition s of
              Some r \<Rightarrow> (Some r, s)
            | None \<Rightarrow>
                (let r = \<lparr>onend = True, starts = 0, stops = 0\<rparr>
                 in (Some r, s\<lparr>recognition := Some r\<rparr>))))"

text \<open>
  \<^verbatim>\<open>startRecognition\<close>: \<^verbatim>\<open>recognitionStarting = true; r.start();\<close> inside \<^verbatim>\<open>try\<close>, and
  \<^verbatim>\<open>recognitionStarting = false\<close> in the \<^verbatim>\<open>catch\<close>. Every call of \<^verbatim>\<open>r.start()\<close> is
  counted in \<open>starts\<close>, whether it throws or not.
\<close>

definition startRecognition :: "env \<Rightarrow> app \<Rightarrow> app" where
  "startRecognition e s =
     (if \<not> speechSupported s \<or> \<not> voiceEnabled_checked s then s
      else if status s \<noteq> Running then s
      else if recognitionStarting s then s
      else (case ensureRecognition s of
              (None, s1) \<Rightarrow> s1
            | (Some r, s1) \<Rightarrow>
                (let s2 = s1\<lparr>recognitionStarting := True\<rparr>;
                     s3 = s2\<lparr>recognition := Some (r\<lparr>starts := Suc (starts r)\<rparr>)\<rparr>
                 in if startThrows e then s3\<lparr>recognitionStarting := False\<rparr> else s3)))"

text \<open>
  \<^verbatim>\<open>stopRecognition\<close>: \<^verbatim>\<open>onend\<close> is set to \<^verbatim>\<open>null\<close>, \<^verbatim>\<open>stop()\<close> is called, and the
  \<^verbatim>\<open>finally\<close> block installs the restart handler again before the function returns
  (a throwing \<^verbatim>\<open>stop()\<close> is caught and ends in the same state).
\<close>

definition stopRecognition :: "app \<Rightarrow> app" where
  "stopRecognition s =
     (let s1 = s\<lparr>recognitionStarting := False\<rparr> in
      case recognition s1 of
        None \<Rightarrow> s1
      | Some r \<Rightarrow>
          (let r1 = r\<lparr>onend := False\<rparr>;
               r2 = r1\<lparr>stops := Suc (stops r1)\<rparr>;
               r3 = r2\<lparr>onend := True\<rparr>
           in s1\<lparr>recognition := Some r3\<rparr>))"

definition handleStart :: "env \<Rightarrow> app \<Rightarrow> app" where
  "handleStart e s =
     (if status s = Running then s
      else (let s1 = stopRecognition s;
                s2 = s1\<lparr>startedAtMs := Some (nowMs e), endedAtMs := None, stopReason := None,
                        lastTranscript := []\<rparr>;
                s3 = s2\<lparr>status := Running\<rparr>
            in startRecognition e s3))"

definition handleStop :: "env \<Rightarrow> StopReason \<Rightarrow> string \<Rightarrow> app \<Rightarrow> app" where
  "handleStop e reason transcriptForStop s =
     (if status s \<noteq> Running then s
      else (case startedAtMs s of
              None \<Rightarrow> s
            | Some started \<Rightarrow>
                (let ended = nowMs e;
                     s1 = s\<lparr>endedAtMs := Some ended, stopReason := Some reason\<rparr>;
                     s2 = stopRecognition s1;
                     duration = max 0 (ended - started);
                     s3 = s2\<lparr>status := Stopped\<rparr>;
                     session = \<lparr>session_id = uuid e,
                                startedAt = started,
                                endedAt = ended,
                                durationMs = duration,
                                session_stopReason = reason,
                                voiceEnabled = voiceEnabled_checked s3,
                                voiceMode = (if voiceEnabled_checked s3
                                             then Some (getVoiceMode s3) else None),
                                keyword = (if voiceEnabled_checked s3 \<and> getVoiceMode s3 = Keyword
                                           then Some (getKeyword s3) else None),
                                transcriptSnippet = None\<rparr>
                 in s3\<lparr>history_slot :=
                         pushSessionToHistory (getItemThrows e) (setItemThrows e) session
                           (history_slot s3)\<rparr>)))"

text \<open>
  The object literal of src/app.js 397-407 as a function of the state in which
  \<open>handleStop\<close> is called and of the start instant it finds there: the session that
  \<open>handleStop\<close> hands to \<open>pushSessionToHistory\<close> (lemma \<open>handleStop_running\<close>).
\<close>

definition built_session :: "env \<Rightarrow> StopReason \<Rightarrow> int \<Rightarrow> app \<Rightarrow> FlowrSession" where
  "built_session e reason started s =
     \<lparr>session_id = uuid e,
      startedAt = started,
      endedAt = nowMs e,
      durationMs = max 0 (nowMs e - started),
      session_stopReason = reason,
      voiceEnabled = voiceEnabled_checked s,
      voiceMode = (if voiceEnabled_checked s then Some (getVoiceMode s) else None),
      keyword = (if voiceEnabled_checked s \<and> getVoiceMode s = Keyword
                 then Some (getKeyword s) else None),
      transcriptSnippet = None\<rparr>"

definition handleReset :: "app \<Rightarrow> app" where
  "handleReset s =
     (let s1 = stopRecognition s
      in s1\<lparr>status := Idle, startedAtMs := None, endedAtMs := None, stopReason := None,
             lastTranscript := []\<rparr>)"

subsection \<open>Auto-stop policy (\<^verbatim>\<open>maybeVoiceStop\<close>, src/app.js 332-349)\<close>

definition maybeVoiceStop :: "env \<Rightarrow> string \<Rightarrow> app \<Rightarrow> app" where
  "maybeVoiceStop e transcript s =
     (if status s \<noteq> Running then s
      else if \<not> voiceEnabled_checked s then s
      else if getVoiceMode s = Any then handleStop e Voice_any transcript s
      else (let keyword = getKeyword s in
            if keyword = [] then s
            else (let hay = toLowerCase transcript; needle = toLowerCase keyword
                  in if includes_str hay needle then handleStop e Voice_keyword transcript s
                     else s)))"

text \<open>
  The decision taken by \<^verbatim>\<open>maybeVoiceStop\<close>, branch by branch: the reason with which
  \<^verbatim>\<open>handleStop\<close> is called, or \<open>None\<close> where the function returns without calling it.
\<close>

definition maybeVoiceStop_decision :: "string \<Rightarrow> app \<Rightarrow> StopReason option" where
  "maybeVoiceStop_decision transcript s =
     (if status s \<noteq> Running then None
      else if \<not> voiceEnabled_checked s then None
      else if getVoiceMode s = Any then Some Voice_any
      else (let keyword = getKeyword s in
            if keyword = [] then None
            else (let hay = toLowerCase transcript; needle = toLowerCase keyword
                  in if includes_str hay needle then Some Voice_keyword else None)))"

subsection \<open>"Simulate word heard" (click handler of \<^verbatim>\<open>simulateBtn\<close>, src/app.js 458-476)\<close>

text \<open>\<^verbatim>\<open>getVoiceMode() === "keyword" ? getKeyword() || "stop" : "hello"\<close>\<close>

definition simulated :: "app \<Rightarrow> string" where
  "simulated s =
     (if getVoiceMode s = Keyword
      then (if getKeyword s = [] then ''stop'' else getKeyword s)
      else ''hello'')"

definition simulate_click :: "env \<Rightarrow> app \<Rightarrow> app" where
  "simulate_click e s =
     (if status s \<noteq> Running then s
      else if getVoiceMode s = Any then handleStop e Voice_any (simulated s) s
      else (let keyword = (if getKeyword s = [] then ''stop'' else getKeyword s);
                hay = toLowerCase (simulated s);
                needle = toLowerCase keyword
            in if includes_str hay needle then handleStop e Voice_keyword (simulated s) s
               else s))"

definition simulate_decision :: "app \<Rightarrow> StopReason option" where
  "simulate_decision s =
     (if status s \<noteq> Running then None
      else if getVoiceMode s = Any then Some Voice_any
      else (let keyword = (if getKeyword s = [] then ''stop'' else getKeyword s);
                hay = toLowerCase (simulated s);
                needle = toLowerCase keyword
            in if includes_str hay needle then Some Voice_keyword else None))"

subsection \<open>Recognition events (handlers installed by \<^verbatim>\<open>ensureRecognition\<close>)\<close>

definition recognition_onstart :: "app \<Rightarrow> app" where
  "recognition_onstart s = s\<lparr>recognitionStarting := False\<rparr>"

text \<open>
  The \<^verbatim>\<open>end\<close> event runs whatever \<^verbatim>\<open>onend\<close> holds at that moment: nothing for \<^verbatim>\<open>null\<close>,
  otherwise the restart handler of src/app.js 263-269 (the same function is installed
  again by \<^verbatim>\<open>stopRecognition\<close>, 323-328).
\<close>

definition recognition_onend :: "env \<Rightarrow> app \<Rightarrow> app" where
  "recognition_onend e s =
     (case recognition s of
        None \<Rightarrow> s
      | Some r \<Rightarrow>
          if \<not> onend r then s
          else if status s = Running \<and> voiceEnabled_checked s \<and> speechSupported s
               then startRecognition e s
               else s)"

text \<open>\<^verbatim>\<open>onerror\<close> only announces the error.\<close>

definition recognition_onerror :: "app \<Rightarrow> app" where
  "recognition_onerror s = s"

text \<open>
  \<^verbatim>\<open>onresult\<close>: the transcripts of the results from \<^verbatim>\<open>resultIndex\<close> on are concatenated
  and trimmed; an empty transcript is dropped.
\<close>

definition recognition_onresult :: "env \<Rightarrow> string list \<Rightarrow> app \<Rightarrow> app" where
  "recognition_onresult e parts s =
     (let transcript = trim (concat parts)
      in if transcript = [] then s
         else maybeVoiceStop e transcript (s\<lparr>lastTranscript := transcript\<rparr>))"

subsection \<open>Form controls\<close>

text \<open>
  The \<^verbatim>\<open>change\<close> handler of the voice checkbox (src/app.js 478-488), after the browser
  has set \<^verbatim>\<open>checked\<close>. \<^verbatim>\<open>updateVoiceSupportUI\<close> disables the checkbox when speech is
  unsupported, so the event cannot occur then.
\<close>

definition voiceEnabled_change :: "env \<Rightarrow> bool \<Rightarrow> app \<Rightarrow> app" where
  "voiceEnabled_change e checked s =
     (if \<not> speechSupported s then s
      else (let s1 = s\<lparr>voiceEnabled_checked := checked\<rparr>;
                s2 = (if status s1 = Running \<and> voiceEnabled_checked s1
                      then startRecognition e s1 else s1)
            in if \<not> voiceEnabled_checked s2 then stopRecognition s2 else s2))"

subsection \<open>Events and runs\<close>

datatype event =
    Start_click
  | Stop_click
  | Reset_click
  | Simulate_click
  | Voice_change bool
  | Mode_change "string option"
  | Keyword_input string
  | Rec_start
  | Rec_end
  | Rec_error
  | Rec_result "string list"

fun step :: "env \<Rightarrow> event \<Rightarrow> app \<Rightarrow> app" where
  "step e Start_click s = handleStart e s"
| "step e Stop_click s = handleStop e Manual [] s"
| "step e Reset_click s = handleReset s"
| "step e Simulate_click s = simulate_click e s"
| "step e (Voice_change b) s = voiceEnabled_change e b s"
| "step e (Mode_change m) s = s\<lparr>voiceMode_value := m\<rparr>"
| "step e (Keyword_input k) s = s\<lparr>keywordInput_value := k\<rparr>"
| "step e Rec_start s = recognition_onstart s"
| "step e Rec_end s = recognition_onend e s"
| "step e Rec_error s = recognition_onerror s"
| "step e (Rec_result parts) s = recognition_onresult e parts s"

fun run :: "(env \<times> event) list \<Rightarrow> app \<Rightarrow> app" where
  "run [] s = s"
| "run ((e, ev) # rest) s = run rest (step e ev s)"

text \<open>
  The state after \<^verbatim>\<open>init()\<close>: idle, no recogniser yet; the checkbox is unchecked when
  speech is unsupported (\<^verbatim>\<open>updateVoiceSupportUI\<close>).
\<close>

definition init :: "bool \<Rightarrow> bool \<Rightarrow> string option \<Rightarrow> string \<Rightarrow> FlowrSession slot \<Rightarrow> app" where
  "init supported checked mode kw sl =
     \<lparr>status = Idle, startedAtMs = None, endedAtMs = None, stopReason = None,
      recognition = None, speechSupported = supported, recognitionStarting = False,
      lastTranscript = [], voiceEnabled_checked = (supported \<and> checked),
      voiceMode_value = mode, keywordInput_value = kw, history_slot = sl\<rparr>"

section \<open>The shared timer record of src/discord-bot.js\<close>

text \<open>
  The object kept in \<^verbatim>\<open>timer-state.json\<close>. \<open>t_startedAt\<close> and \<open>t_endedAt\<close> are ISO
  strings or \<^verbatim>\<open>null\<close>, kept as the instant they denote; \<open>t_durationMs\<close> is a JSON
  number (\<open>None\<close> would be \<^verbatim>\<open>null\<close>).
\<close>

record TimerState =
  t_status :: FlowrStatus
  t_startedAt :: "int option"
  t_endedAt :: "int option"
  t_durationMs :: "int option"
  t_stopReason :: "StopReason option"
  t_voiceEnabled :: bool
  t_voiceMode :: "VoiceMode option"
  t_keyword :: "string option"

text \<open>
  The state file: missing, unreadable as JSON (\<^verbatim>\<open>JSON.parse\<close> throws and the error is
  logged), or holding a record.
\<close>

datatype state_file = No_file | Bad_file | State_file TimerState

definition default_state :: TimerState where
  "default_state =
     \<lparr>t_status = Idle, t_startedAt = None, t_endedAt = None, t_durationMs = Some 0,
      t_stopReason = None, t_voiceEnabled = False, t_voiceMode = None, t_keyword = None\<rparr>"

definition loadTimerState :: "state_file \<Rightarrow> TimerState" where
  "loadTimerState f =
     (case f of No_file \<Rightarrow> default_state | Bad_file \<Rightarrow> default_state | State_file st \<Rightarrow> st)"

text \<open>\<^verbatim>\<open>writeFileSync\<close> inside \<^verbatim>\<open>try\<close>/\<^verbatim>\<open>catch\<close>: a failed write leaves the file as it was.\<close>

definition saveTimerState :: "bool \<Rightarrow> TimerState \<Rightarrow> state_file \<Rightarrow> state_file" where
  "saveTimerState writeThrows st f = (if writeThrows then f else State_file st)"

definition getTimerState :: "state_file \<Rightarrow> TimerState" where
  "getTimerState f = loadTimerState f"

text \<open>
  \<^verbatim>\<open>updateTimerState(updates)\<close>: the object spread \<^verbatim>\<open>{ ...current, ...updates }\<close> is the
  current record with the fields of \<^verbatim>\<open>updates\<close> overwritten, here a record update.
\<close>

definition updateTimerState ::
  "bool \<Rightarrow> (TimerState \<Rightarrow> TimerState) \<Rightarrow> state_file \<Rightarrow> state_file" where
  "updateTimerState writeThrows updates f =
     (let current = loadTimerState f; updated = updates current
      in saveTimerState writeThrows updated f)"

text \<open>
  The commands \<^verbatim>\<open>timer-start\<close>, \<^verbatim>\<open>timer-stop\<close>, \<^verbatim>\<open>timer-reset\<close> (src/discord-bot.js
  312-393; the buttons \<^verbatim>\<open>timer_start\<close>, \<^verbatim>\<open>timer_stop\<close>, \<^verbatim>\<open>timer_reset\<close> at 752-823 run
  the same code). The first argument is the clock reading of \<^verbatim>\<open>new Date()\<close>, the second
  whether the write fails. In \<^verbatim>\<open>timer-stop\<close>, \<^verbatim>\<open>new Date(null)\<close> is the epoch.
\<close>

definition timer_start :: "int \<Rightarrow> bool \<Rightarrow> state_file \<Rightarrow> state_file" where
  "timer_start clock writeThrows f =
     (let state = getTimerState f in
      if t_status state = Running then f
      else updateTimerState writeThrows
             (\<lambda>c. c\<lparr>t_status := Running, t_startedAt := Some clock, t_endedAt := None,
                     t_durationMs := Some 0, t_stopReason := None\<rparr>) f)"

definition timer_stop :: "int \<Rightarrow> bool \<Rightarrow> state_file \<Rightarrow> state_file" where
  "timer_stop clock writeThrows f =
     (let state = getTimerState f in
      if t_status state \<noteq> Running then f
      else (let ended = clock;
                started = (case t_startedAt state of None \<Rightarrow> 0 | Some t \<Rightarrow> t);
                duration = max 0 (ended - started)
            in updateTimerState writeThrows
                 (\<lambda>c. c\<lparr>t_status := Stopped, t_endedAt := Some ended,
                         t_durationMs := Some duration, t_stopReason := Some Manual\<rparr>) f))"

definition timer_reset :: "bool \<Rightarrow> state_file \<Rightarrow> state_file" where
  "timer_reset writeThrows f =
     updateTimerState writeThrows
       (\<lambda>c. c\<lparr>t_status := Idle, t_startedAt := None, t_endedAt := None,
               t_durationMs := Some 0, t_stopReason := None\<rparr>) f"

datatype command = Timer_start | Timer_stop | Timer_reset

fun bot_step :: "int \<times> bool \<times> command \<Rightarrow> state_file \<Rightarrow> state_file" where
  "bot_step (clock, writeThrows, Timer_start) f = timer_start clock writeThrows f"
| "bot_step (clock, writeThrows, Timer_stop) f = timer_stop clock writeThrows f"
| "bot_step (clock, writeThrows, Timer_reset) f = timer_reset writeThrows f"

fun bot_run :: "(int \<times> bool \<times> command) list \<Rightarrow> state_file \<Rightarrow> state_file" where
  "bot_run [] f = f"
| "bot_run (c # cs) f = bot_run cs (bot_step c f)"

section \<open>Invariants of the reachable states\<close>

text \<open>
  What every handler of src/app.js preserves: an end instant is recorded exactly in the
  stopped (or finished) state, a start instant exactly outside the idle state, the
  recogniser carries its restart handler between two handlers, and without speech
  support the voice checkbox is unticked.
\<close>

definition app_inv :: "app \<Rightarrow> bool" where
  "app_inv s =
     ((endedAtMs s \<noteq> None) = (status s = Stopped \<or> status s = Finished)
      \<and> (startedAtMs s \<noteq> None) = (status s \<noteq> Idle)
      \<and> (\<forall>r. recognition s = Some r \<longrightarrow> onend r)
      \<and> (\<not> speechSupported s \<longrightarrow> \<not> voiceEnabled_checked s))"

text \<open>
  What every command of src/discord-bot.js preserves in the stored record: an end instant
  exactly in the stopped (or finished) state, and a duration that is a number, not
  negative, and zero while idle or running.
\<close>

definition bot_inv :: "TimerState \<Rightarrow> bool" where
  "bot_inv st =
     ((t_endedAt st \<noteq> None) = (t_status st = Stopped \<or> t_status st = Finished)
      \<and> (\<exists>d. t_durationMs st = Some d \<and> 0 \<le> d)
      \<and> (t_status st = Idle \<or> t_status st = Running \<longrightarrow> t_durationMs st = Some 0))"

section \<open>Concrete environments and states\<close>

definition env0 :: env where
  "env0 = \<lparr>nowMs = 1000, uuid = ''session-1'', startThrows = False, getItemThrows = False,
           setItemThrows = False\<rparr>"

text \<open>A later clock reading, and one that lies before the start (the clock was set back).\<close>

definition env_later :: env where
  "env_later = \<lparr>nowMs = 6000, uuid = ''session-2'', startThrows = False, getItemThrows = False,
                setItemThrows = False\<rparr>"

definition env_earlier :: env where
  "env_earlier = \<lparr>nowMs = 400, uuid = ''session-3'', startThrows = False,
                  getItemThrows = False, setItemThrows = False\<rparr>"

text \<open>Running sessions reached by pressing Start in a freshly initialised page.\<close>

definition listening_for_stop :: app where
  "listening_for_stop = handleStart env0 (init True True (Some ''keyword'') '' Stop '' Absent)"

definition listening_no_keyword :: app where
  "listening_no_keyword = handleStart env0 (init True True (Some ''keyword'') [] Absent)"

text \<open>Start pressed with voice enabled: \<^verbatim>\<open>r.start()\<close> has been called, \<^verbatim>\<open>onstart\<close> has not fired yet.\<close>

definition start_pending :: app where
  "start_pending = handleStart env0 (init True True None [] Absent)"

text \<open>The same session once the recogniser has reported \<^verbatim>\<open>start\<close>.\<close>

definition listening :: app where
  "listening = run [(env0, Start_click), (env0, Rec_start)] (init True True None [] Absent)"

text \<open>The bot's state file after \<^verbatim>\<open>timer-start\<close> on a fresh installation.\<close>

definition bot_started :: state_file where
  "bot_started = bot_run [(1000, False, Timer_start)] No_file"

definition running_voice_off :: app where
  "running_voice_off = handleStart env0 (init False False None [] Absent)"

section \<open>Properties of the scheduled-finish evaluator\<close>

lemma finishIfDue_not_running:
  "f_status s \<noteq> Running \<Longrightarrow> finishIfDue (Some s) now = Some s"
  by (simp add: finishIfDue_def)

lemma finishIfDue_due:
  assumes "f_status s = Running" "autoFinishTs s = Some due" "due \<noteq> 0" "due \<le> now"
  shows "finishIfDue (Some s) now = Some (s\<lparr>finishTs := Some due, f_status := Finished\<rparr>)"
  using assms by (simp add: finishIfDue_def)

lemma finishIfDue_not_due:
  assumes "autoFinishTs s = None \<or> autoFinishTs s = Some 0 \<or> (\<exists>due. autoFinishTs s = Some due \<and> now < due)"
  shows "finishIfDue (Some s) now = Some s"
  using assms by (auto simp: finishIfDue_def split: option.splits)

text \<open>
  Claim C1, as amended. For every record and every observation instant, \<open>finishIfDue\<close>
  returns the record unchanged unless its status is running, a non-zero scheduled finish
  timestamp is set and the instant is at or past it; in that case the result is the same
  record with status finished and \<open>finishTs\<close> equal to the scheduled timestamp, whatever
  the observation instant was, and evaluating that finished record again at any instant
  returns it as it is.
\<close>

theorem finishIfDue_scheduled:
  "(f_status s = Running \<and> (\<exists>due. autoFinishTs s = Some due \<and> due \<noteq> 0 \<and> due \<le> now)
      \<longrightarrow> (\<exists>r. finishIfDue (Some s) now = Some r \<and> f_status r = Finished
               \<and> finishTs r = autoFinishTs s
               \<and> r = s\<lparr>finishTs := autoFinishTs s, f_status := Finished\<rparr>
               \<and> finishIfDue (Some r) now' = Some r))
   \<and> (\<not> (f_status s = Running \<and> (\<exists>due. autoFinishTs s = Some due \<and> due \<noteq> 0 \<and> due \<le> now))
      \<longrightarrow> finishIfDue (Some s) now = Some s)"
proof (intro conjI impI)
  assume a: "f_status s = Running \<and> (\<exists>due. autoFinishTs s = Some due \<and> due \<noteq> 0 \<and> due \<le> now)"
  then obtain due where d: "autoFinishTs s = Some due" "due \<noteq> 0" "due \<le> now" by blast
  let ?r = "s\<lparr>finishTs := Some due, f_status := Finished\<rparr>"
  from a d have "finishIfDue (Some s) now = Some ?r"
    by (simp add: finishIfDue_due)
  moreover have "finishIfDue (Some ?r) now' = Some ?r"
    by (simp add: finishIfDue_not_running)
  ultimately show "\<exists>r. finishIfDue (Some s) now = Some r \<and> f_status r = Finished
               \<and> finishTs r = autoFinishTs s
               \<and> r = s\<lparr>finishTs := autoFinishTs s, f_status := Finished\<rparr>
               \<and> finishIfDue (Some r) now' = Some r"
    using d by simp
next
  assume "\<not> (f_status s = Running \<and> (\<exists>due. autoFinishTs s = Some due \<and> due \<noteq> 0 \<and> due \<le> now))"
  then show "finishIfDue (Some s) now = Some s"
    by (auto simp: finishIfDue_def split: option.splits)
qed

text \<open>
  The self-test's record, scheduled for 2000 and observed at 999999, is finished at 2000;
  observed again at 5000000 it stays as it is; and observed before it is due, at 1500, it is
  returned unchanged.
\<close>

theorem finishIfDue_scheduled_witness:
  "f_status dev_test_state = Running \<and> autoFinishTs dev_test_state = Some 2000
   \<and> finishIfDue (Some dev_test_state) 999999
     = Some (dev_test_state\<lparr>finishTs := Some 2000, f_status := Finished\<rparr>)
   \<and> finishIfDue (finishIfDue (Some dev_test_state) 999999) 5000000
     = finishIfDue (Some dev_test_state) 999999
   \<and> finishIfDue (Some dev_test_state) 1500 = Some dev_test_state"
proof -
  have st: "f_status dev_test_state = Running" "autoFinishTs dev_test_state = Some 2000"
    by (simp_all add: dev_test_state_def)
  have due: "f_status dev_test_state = Running
      \<and> (\<exists>due. autoFinishTs dev_test_state = Some due \<and> due \<noteq> 0 \<and> due \<le> 999999)"
    using st by simp
  have early: "\<not> (f_status dev_test_state = Running
      \<and> (\<exists>due. autoFinishTs dev_test_state = Some due \<and> due \<noteq> 0 \<and> due \<le> 1500))"
    using st by simp
  from due finishIfDue_scheduled [of dev_test_state 999999 5000000]
  obtain r where r: "finishIfDue (Some dev_test_state) 999999 = Some r"
      "r = dev_test_state\<lparr>finishTs := autoFinishTs dev_test_state, f_status := Finished\<rparr>"
      "finishIfDue (Some r) 5000000 = Some r"
    by blast
  from r st have a: "finishIfDue (Some dev_test_state) 999999
      = Some (dev_test_state\<lparr>finishTs := Some 2000, f_status := Finished\<rparr>)"
    by simp
  from r have c: "finishIfDue (finishIfDue (Some dev_test_state) 999999) 5000000
      = finishIfDue (Some dev_test_state) 999999"
    by simp
  from early finishIfDue_scheduled [of dev_test_state 1500 5]
  have b: "finishIfDue (Some dev_test_state) 1500 = Some dev_test_state"
    by blast
  from st a b c show ?thesis by blast
qed

text \<open>
  Claim C1 as stated fails on a scheduled timestamp of zero: the record is running, the
  timestamp is set and the observation instant 5 is past it, yet the record comes back
  unchanged and still running.
\<close>

theorem finishIfDue_zero_counterexample:
  "f_status zero_due_state = Running \<and> autoFinishTs zero_due_state = Some 0 \<and> (0::int) \<le> 5
   \<and> finishIfDue (Some zero_due_state) 5 = Some zero_due_state
   \<and> \<not> (\<exists>r. finishIfDue (Some zero_due_state) 5 = Some r \<and> f_status r = Finished)"
  by (simp add: finishIfDue_def zero_due_state_def)

section \<open>Properties of the string functions\<close>

lemma startsWith_iff: "startsWith hay needle \<longleftrightarrow> (\<exists>after. hay = needle @ after)"
  by (induction hay needle rule: startsWith.induct) auto

lemma includes_str_iff: "includes_str hay needle \<longleftrightarrow> contains_substring hay needle"
proof (induction hay)
  case Nil
  then show ?case by (auto simp: startsWith_iff contains_substring_def)
next
  case (Cons h hs)
  show ?case
  proof
    assume "includes_str (h # hs) needle"
    then consider "startsWith (h # hs) needle" | "includes_str hs needle" by auto
    then show "contains_substring (h # hs) needle"
    proof cases
      case 1
      then obtain after where "h # hs = needle @ after" by (auto simp: startsWith_iff)
      then have "h # hs = [] @ needle @ after" by simp
      then show ?thesis unfolding contains_substring_def by blast
    next
      case 2
      with Cons obtain b a where "hs = b @ needle @ a" by (auto simp: contains_substring_def)
      then have "h # hs = (h # b) @ needle @ a" by simp
      then show ?thesis unfolding contains_substring_def by blast
    qed
  next
    assume "contains_substring (h # hs) needle"
    then obtain b a where ba: "h # hs = b @ needle @ a" by (auto simp: contains_substring_def)
    show "includes_str (h # hs) needle"
    proof (cases b)
      case Nil
      with ba have "startsWith (h # hs) needle" by (auto simp: startsWith_iff)
      then show ?thesis by simp
    next
      case (Cons b0 bs)
      with ba have "hs = bs @ needle @ a" by simp
      then have "contains_substring hs needle" unfolding contains_substring_def by blast
      with Cons.IH show ?thesis by simp
    qed
  qed
qed

lemma includes_str_refl: "includes_str x x"
  by (simp add: includes_str_iff contains_substring_def) (metis append_Nil append_Nil2)

section \<open>Properties of the auto-stop policy\<close>

lemma maybeVoiceStop_by_decision:
  "maybeVoiceStop e u s =
     (case maybeVoiceStop_decision u s of None \<Rightarrow> s | Some r \<Rightarrow> handleStop e r u s)"
  by (simp add: maybeVoiceStop_def maybeVoiceStop_decision_def Let_def)

lemma simulate_click_by_decision:
  "simulate_click e s =
     (case simulate_decision s of None \<Rightarrow> s | Some r \<Rightarrow> handleStop e r (simulated s) s)"
  by (simp add: simulate_click_def simulate_decision_def Let_def)

lemma getVoiceMode_voice_on [simp]:
  "getVoiceMode (s\<lparr>voiceEnabled_checked := b\<rparr>) = getVoiceMode s"
  by (simp add: getVoiceMode_def)

lemma getKeyword_voice_on [simp]:
  "getKeyword (s\<lparr>voiceEnabled_checked := b\<rparr>) = getKeyword s"
  by (simp add: getKeyword_def)

text \<open>
  Claim C3. With the session running, voice enabled and the mode keyword, \<open>maybeVoiceStop\<close>
  calls \<open>handleStop\<close> with reason \<open>Voice_keyword\<close> exactly when the trimmed keyword is not
  empty and the lower-cased utterance contains the lower-cased keyword as a contiguous
  substring; it never stops with another reason; and with an empty trimmed keyword no
  utterance stops the session (the state is returned as it is).
\<close>

theorem keyword_policy:
  assumes "status s = Running" "voiceEnabled_checked s" "getVoiceMode s = Keyword"
  shows "(maybeVoiceStop_decision u s = Some Voice_keyword
            \<longleftrightarrow> getKeyword s \<noteq> []
                \<and> contains_substring (toLowerCase u) (toLowerCase (getKeyword s)))
       \<and> (maybeVoiceStop_decision u s \<noteq> Some Voice_keyword
            \<longrightarrow> maybeVoiceStop_decision u s = None)
       \<and> (getKeyword s = [] \<longrightarrow> maybeVoiceStop_decision u s = None)
       \<and> maybeVoiceStop e u s =
           (if maybeVoiceStop_decision u s = Some Voice_keyword
            then handleStop e Voice_keyword u s else s)"
  using assms
  by (simp add: maybeVoiceStop_by_decision maybeVoiceStop_decision_def Let_def includes_str_iff)

text \<open>
  Keyword \<^verbatim>\<open>" Stop "\<close> and utterance \<^verbatim>\<open>"Please STOP now"\<close> stop the session; with an empty
  keyword field the utterance \<^verbatim>\<open>"stop"\<close> does not.
\<close>

theorem keyword_policy_witness:
  "status listening_for_stop = Running \<and> voiceEnabled_checked listening_for_stop
   \<and> getVoiceMode listening_for_stop = Keyword \<and> getKeyword listening_for_stop = ''Stop''
   \<and> maybeVoiceStop_decision ''Please STOP now'' listening_for_stop = Some Voice_keyword
   \<and> contains_substring (toLowerCase ''Please STOP now'') (toLowerCase ''Stop'')
   \<and> maybeVoiceStop env0 ''Please STOP now'' listening_for_stop
       = handleStop env0 Voice_keyword ''Please STOP now'' listening_for_stop
   \<and> getKeyword listening_no_keyword = []
   \<and> maybeVoiceStop_decision ''stop'' listening_no_keyword = None
   \<and> maybeVoiceStop env0 ''stop'' listening_no_keyword = listening_no_keyword"
proof -
  have h: "status listening_for_stop = Running" "voiceEnabled_checked listening_for_stop"
    "getVoiceMode listening_for_stop = Keyword" by code_simp+
  have k: "getKeyword listening_for_stop = ''Stop''" by code_simp
  have d: "maybeVoiceStop_decision ''Please STOP now'' listening_for_stop = Some Voice_keyword"
    by code_simp
  have h': "status listening_no_keyword = Running" "voiceEnabled_checked listening_no_keyword"
    "getVoiceMode listening_no_keyword = Keyword" by code_simp+
  have k': "getKeyword listening_no_keyword = []" by code_simp
  from keyword_policy [OF h, of "''Please STOP now''" env0] d k
  have 1: "contains_substring (toLowerCase ''Please STOP now'') (toLowerCase ''Stop'')"
    "maybeVoiceStop env0 ''Please STOP now'' listening_for_stop
       = handleStop env0 Voice_keyword ''Please STOP now'' listening_for_stop"
    by simp_all
  from keyword_policy [OF h', of "''stop''" env0] k'
  have 2: "maybeVoiceStop_decision ''stop'' listening_no_keyword = None"
    "maybeVoiceStop env0 ''stop'' listening_no_keyword = listening_no_keyword"
    by simp_all
  from h k d 1 2 k' show ?thesis by simp
qed

text \<open>
  Claim C2, as amended. The simulate button ignores the voice checkbox: whenever the mode
  is "any word" or the trimmed keyword is not empty, its decision is the decision of
  \<open>maybeVoiceStop\<close> taken with the checkbox ticked, on the utterance the button
  synthesises; so with voice enabled the two paths decide alike and end in the same state.
\<close>

theorem simulate_matches_live:
  assumes "getVoiceMode s = Any \<or> getKeyword s \<noteq> []"
  shows "simulate_decision s
           = maybeVoiceStop_decision (simulated s) (s\<lparr>voiceEnabled_checked := True\<rparr>)
       \<and> (voiceEnabled_checked s
            \<longrightarrow> simulate_decision s = maybeVoiceStop_decision (simulated s) s
              \<and> simulate_click e s = maybeVoiceStop e (simulated s) s)"
proof -
  have a: "simulate_decision s
           = maybeVoiceStop_decision (simulated s) (s\<lparr>voiceEnabled_checked := True\<rparr>)"
    using assms
    by (auto simp: simulate_decision_def maybeVoiceStop_decision_def Let_def simulated_def
        includes_str_refl)
  show ?thesis
  proof (intro conjI impI)
    show "simulate_decision s
           = maybeVoiceStop_decision (simulated s) (s\<lparr>voiceEnabled_checked := True\<rparr>)"
      by (rule a)
  next
    assume "voiceEnabled_checked s"
    then have "s\<lparr>voiceEnabled_checked := True\<rparr> = s" by simp
    with a show "simulate_decision s = maybeVoiceStop_decision (simulated s) s" by simp
    then show "simulate_click e s = maybeVoiceStop e (simulated s) s"
      by (simp add: simulate_click_by_decision maybeVoiceStop_by_decision)
  qed
qed


text \<open>With voice enabled and the keyword \<^verbatim>\<open>" Stop "\<close>, both paths stop with \<open>Voice_keyword\<close>.\<close>

theorem simulate_matches_live_witness:
  "getKeyword listening_for_stop \<noteq> [] \<and> voiceEnabled_checked listening_for_stop
   \<and> simulated listening_for_stop = ''Stop''
   \<and> simulate_decision listening_for_stop = Some Voice_keyword
   \<and> maybeVoiceStop_decision ''Stop'' listening_for_stop = Some Voice_keyword
   \<and> simulate_click env0 listening_for_stop = maybeVoiceStop env0 ''Stop'' listening_for_stop"
proof -
  have k: "getKeyword listening_for_stop \<noteq> []" by code_simp
  have v: "voiceEnabled_checked listening_for_stop" by code_simp
  have u: "simulated listening_for_stop = ''Stop''" by code_simp
  have d: "simulate_decision listening_for_stop = Some Voice_keyword" by code_simp
  from simulate_matches_live [of listening_for_stop env0] k v
  have e1: "simulate_decision listening_for_stop
              = maybeVoiceStop_decision (simulated listening_for_stop) listening_for_stop"
    and e2: "simulate_click env0 listening_for_stop
              = maybeVoiceStop env0 (simulated listening_for_stop) listening_for_stop"
    by blast+
  from e1 [symmetric] have l: "maybeVoiceStop_decision ''Stop'' listening_for_stop = Some Voice_keyword"
    unfolding u d .
  from e2 have c: "simulate_click env0 listening_for_stop
      = maybeVoiceStop env0 ''Stop'' listening_for_stop"
    unfolding u .
  from k v u d l c show ?thesis by blast
qed

text \<open>
  Claim C2 as stated fails with voice disabled: in a running session with the checkbox
  unticked and the mode "any word", the simulate button stops the session with reason
  \<open>Voice_any\<close>, and \<open>maybeVoiceStop\<close> on the same utterance does nothing.
\<close>

theorem simulate_diverges_counterexample:
  "status running_voice_off = Running \<and> \<not> voiceEnabled_checked running_voice_off
   \<and> getVoiceMode running_voice_off = Any
   \<and> simulated running_voice_off = ''hello''
   \<and> simulate_decision running_voice_off = Some Voice_any
   \<and> maybeVoiceStop_decision ''hello'' running_voice_off = None
   \<and> simulate_decision running_voice_off
       \<noteq> maybeVoiceStop_decision (simulated running_voice_off) running_voice_off"
  by code_simp

section \<open>Properties of the session history\<close>

lemma loadHistory_simps:
  "loadHistory g Absent = []"
  "loadHistory g Empty_text = []"
  "loadHistory g Invalid_json = []"
  "loadHistory g Non_array = []"
  "loadHistory g (Json_array xs) = (if g then [] else xs)"
  by (simp_all add: loadHistory_def loadHistory_try_def)

lemma take_append_take: "take n (a @ take n b) = take n (a @ b)"
  by (simp add: min_def)

lemma push_working:
  "pushSessionToHistory False False x sl
     = Json_array (take HISTORY_LIMIT (x # loadHistory False sl))"
  by (simp add: pushSessionToHistory_def saveHistory_def Let_def)

lemma push_all_stored:
  "xs \<noteq> [] \<Longrightarrow>
   push_all xs sl = Json_array (take HISTORY_LIMIT (rev xs @ loadHistory False sl))"
proof (induction xs arbitrary: sl)
  case Nil
  then show ?case by simp
next
  case (Cons x xs)
  show ?case
  proof (cases "xs = []")
    case True
    then show ?thesis by (simp add: push_working)
  next
    case False
    from Cons.IH [OF False]
    have "push_all (x # xs) sl
        = Json_array (take HISTORY_LIMIT
            (rev xs @ take HISTORY_LIMIT (x # loadHistory False sl)))"
      by (simp add: push_working loadHistory_simps)
    then show ?thesis by (simp add: take_append_take)
  qed
qed

lemma push_bound:
  "length (loadHistory False sl) \<le> HISTORY_LIMIT \<Longrightarrow>
   length (loadHistory g' (pushSessionToHistory g w x sl)) \<le> HISTORY_LIMIT"
  by (cases sl) (simp_all add: pushSessionToHistory_def saveHistory_def Let_def loadHistory_simps)

lemma push_subset:
  "set (loadHistory g' (pushSessionToHistory g w x sl)) \<subseteq> insert x (set (loadHistory False sl))"
  by (cases sl)
    (auto simp: pushSessionToHistory_def saveHistory_def Let_def loadHistory_simps
      dest: in_set_takeD split: if_splits)

text \<open>
  Claim C8. Appending a non-empty sequence of sessions to any slot leaves the ten most
  recent ones, newest first: the stored list is the first ten elements of the appended
  sessions in reverse order followed by what was stored before, so its length is at most
  10 and its element at index 0 is the last session appended. After eleven appends the
  list has length 10 and starts with the eleventh. A single append, whether or not the
  storage calls throw, never takes a list of at most ten entries beyond ten.
\<close>

theorem history_bounded_newest_first:
  "(xs \<noteq> [] \<longrightarrow>
      loadHistory False (push_all xs sl) = take 10 (rev xs @ loadHistory False sl)
      \<and> length (loadHistory False (push_all xs sl)) \<le> 10
      \<and> loadHistory False (push_all xs sl) ! 0 = last xs)
   \<and> (length xs = 11 \<longrightarrow>
      length (loadHistory False (push_all xs sl)) = 10
      \<and> loadHistory False (push_all xs sl) ! 0 = xs ! 10
      \<and> loadHistory False (push_all xs sl) = take 10 (rev xs))
   \<and> (length (loadHistory False sl) \<le> 10 \<longrightarrow>
      length (loadHistory False (pushSessionToHistory getThrows setThrows x sl)) \<le> 10)"
proof (intro conjI impI)
  assume ne: "xs \<noteq> []"
  then show a: "loadHistory False (push_all xs sl) = take 10 (rev xs @ loadHistory False sl)"
    by (simp add: push_all_stored loadHistory_simps HISTORY_LIMIT_def)
  then show "length (loadHistory False (push_all xs sl)) \<le> 10" by simp
  from ne have "rev xs = last xs # rev (butlast xs)"
    by (metis append_butlast_last_id rev_append rev_singleton_conv append_Cons append_Nil)
  with a show "loadHistory False (push_all xs sl) ! 0 = last xs" by simp
next
  assume len: "length xs = 11"
  then have ne: "xs \<noteq> []" by auto
  then have a: "loadHistory False (push_all xs sl) = take 10 (rev xs @ loadHistory False sl)"
    by (simp add: push_all_stored loadHistory_simps HISTORY_LIMIT_def)
  with len show "length (loadHistory False (push_all xs sl)) = 10" by simp
  from a len show b: "loadHistory False (push_all xs sl) = take 10 (rev xs)" by simp
  from len have "rev xs ! 0 = xs ! 10" by (simp add: rev_nth)
  with b len show "loadHistory False (push_all xs sl) ! 0 = xs ! 10" by simp
next
  assume "length (loadHistory False sl) \<le> 10"
  then show "length (loadHistory False (pushSessionToHistory getThrows setThrows x sl)) \<le> 10"
    using push_bound [of sl False getThrows setThrows x] by (simp add: HISTORY_LIMIT_def)
qed

text \<open>Eleven appends to an empty storage, and an append whose write fails.\<close>

theorem history_bounded_newest_first_witness:
  "[1, 2, 3, 4, 5, 6, 7, 8, 9, 10, 11 :: nat] \<noteq> []
   \<and> length [1, 2, 3, 4, 5, 6, 7, 8, 9, 10, 11 :: nat] = 11
   \<and> length (loadHistory False (Absent :: nat slot)) \<le> 10
   \<and> loadHistory False (push_all [1, 2, 3, 4, 5, 6, 7, 8, 9, 10, 11 :: nat] Absent)
       = [11, 10, 9, 8, 7, 6, 5, 4, 3, 2]
   \<and> length (loadHistory False (push_all [1, 2, 3, 4, 5, 6, 7, 8, 9, 10, 11 :: nat] Absent)) = 10
   \<and> loadHistory False (push_all [1, 2, 3, 4, 5, 6, 7, 8, 9, 10, 11 :: nat] Absent) ! 0 = 11
   \<and> length (loadHistory False (pushSessionToHistory False True (12 :: nat) Absent)) \<le> 10"
  using history_bounded_newest_first
    [of "[1, 2, 3, 4, 5, 6, 7, 8, 9, 10, 11 :: nat]" Absent False True 12]
  by (simp add: loadHistory_simps)

text \<open>
  Claim C10. Whatever the slot holds that is not a JSON array (no entry, the empty string,
  a text that \<^verbatim>\<open>JSON.parse\<close> rejects, a JSON value that is not an array), and also when
  reading the storage throws, \<open>loadHistory\<close> returns the empty list: the exception raised
  inside the \<^verbatim>\<open>try\<close> block (\<open>loadHistory_try\<close> is \<open>Inl\<close>) does not leave the function.
  A stored array is returned as it is.
\<close>

theorem loadHistory_never_raises:
  "(getThrows \<or> (sl :: 'a slot) = Absent \<or> sl = Empty_text \<or> sl = Invalid_json \<or> sl = Non_array
      \<longrightarrow> loadHistory getThrows sl = [])
   \<and> (\<not> getThrows \<longrightarrow> loadHistory getThrows (Json_array xs) = (xs :: 'a list))
   \<and> loadHistory_try False (Invalid_json :: 'a slot) = Inl SyntaxError
   \<and> loadHistory_try True sl = Inl StorageError"
  by (auto simp: loadHistory_def loadHistory_try_def)


text \<open>
  A rejected text, a non-array value, an empty storage and a storage that refuses to be
  read all load as the empty list; a stored array loads as itself.
\<close>

theorem loadHistory_never_raises_witness:
  "loadHistory False (Invalid_json :: nat slot) = []
   \<and> loadHistory False (Non_array :: nat slot) = []
   \<and> loadHistory False (Absent :: nat slot) = []
   \<and> loadHistory True (Json_array [1, 2 :: nat]) = []
   \<and> loadHistory False (Json_array [1, 2 :: nat]) = [1, 2]
   \<and> loadHistory_try False (Invalid_json :: nat slot) = Inl SyntaxError"
  using loadHistory_never_raises [of False "Invalid_json :: nat slot" "[1, 2]"]
    loadHistory_never_raises [of False "Non_array :: nat slot" "[1, 2]"]
    loadHistory_never_raises [of False "Absent :: nat slot" "[1, 2]"]
    loadHistory_never_raises [of True "Json_array [1, 2 :: nat]" "[1, 2]"]
  by simp

section \<open>Properties of the handlers of src/app.js\<close>

lemma stopRecognition_frame [simp]:
  "status (stopRecognition s) = status s"
  "startedAtMs (stopRecognition s) = startedAtMs s"
  "endedAtMs (stopRecognition s) = endedAtMs s"
  "stopReason (stopRecognition s) = stopReason s"
  "speechSupported (stopRecognition s) = speechSupported s"
  "voiceEnabled_checked (stopRecognition s) = voiceEnabled_checked s"
  "voiceMode_value (stopRecognition s) = voiceMode_value s"
  "keywordInput_value (stopRecognition s) = keywordInput_value s"
  "history_slot (stopRecognition s) = history_slot s"
  "recognitionStarting (stopRecognition s) = False"
  by (simp_all add: stopRecognition_def Let_def split: option.splits)

lemma startRecognition_frame [simp]:
  "status (startRecognition e s) = status s"
  "startedAtMs (startRecognition e s) = startedAtMs s"
  "endedAtMs (startRecognition e s) = endedAtMs s"
  "stopReason (startRecognition e s) = stopReason s"
  "speechSupported (startRecognition e s) = speechSupported s"
  "voiceEnabled_checked (startRecognition e s) = voiceEnabled_checked s"
  "voiceMode_value (startRecognition e s) = voiceMode_value s"
  "keywordInput_value (startRecognition e s) = keywordInput_value s"
  "history_slot (startRecognition e s) = history_slot s"
  by (simp_all add: startRecognition_def ensureRecognition_def Let_def split: option.splits)

lemma startRecognition_not_running [simp]:
  "status s \<noteq> Running \<Longrightarrow> startRecognition e s = s"
  by (simp add: startRecognition_def)

lemma getVoiceMode_frame [simp]:
  "getVoiceMode (stopRecognition s) = getVoiceMode s"
  "getVoiceMode (startRecognition e s) = getVoiceMode s"
  "getKeyword (stopRecognition s) = getKeyword s"
  "getKeyword (startRecognition e s) = getKeyword s"
  by (simp_all add: getVoiceMode_def getKeyword_def)

lemma stopRecognition_update_commute:
  "stopRecognition (s\<lparr>endedAtMs := a, stopReason := b\<rparr>)
     = (stopRecognition s)\<lparr>endedAtMs := a, stopReason := b\<rparr>"
  by (simp add: stopRecognition_def Let_def split: option.splits)

lemma handleStop_running:
  assumes "status s = Running" "startedAtMs s = Some started"
  shows "handleStop e reason t s
     = (stopRecognition s)\<lparr>endedAtMs := Some (nowMs e), stopReason := Some reason,
          status := Stopped,
          history_slot := pushSessionToHistory (getItemThrows e) (setItemThrows e)
                            (built_session e reason started s) (history_slot s)\<rparr>"
  using assms
  by (simp add: handleStop_def Let_def built_session_def stopRecognition_update_commute
      getVoiceMode_def getKeyword_def)

lemma handleStop_noop:
  "status s \<noteq> Running \<or> startedAtMs s = None \<Longrightarrow> handleStop e reason t s = s"
  by (auto simp: handleStop_def)

lemma handleStop_transcript_free:
  "handleStop e reason t s = handleStop e reason t' s"
  by (simp add: handleStop_def Let_def split: option.splits)

lemma handleStart_idle:
  "status s \<noteq> Running \<Longrightarrow>
   handleStart e s
     = startRecognition e
         ((stopRecognition s)\<lparr>startedAtMs := Some (nowMs e), endedAtMs := None,
             stopReason := None, lastTranscript := [], status := Running\<rparr>)"
  by (simp add: handleStart_def Let_def)

lemma handleStart_fields [simp]:
  "status (handleStart e s) = Running"
  "status s \<noteq> Running \<Longrightarrow> startedAtMs (handleStart e s) = Some (nowMs e)"
  "status s \<noteq> Running \<Longrightarrow> endedAtMs (handleStart e s) = None"
  "status s \<noteq> Running \<Longrightarrow> stopReason (handleStart e s) = None"
  "history_slot (handleStart e s) = history_slot s"
  by (simp_all add: handleStart_def Let_def)

lemma handleReset_fields [simp]:
  "status (handleReset s) = Idle"
  "startedAtMs (handleReset s) = None"
  "endedAtMs (handleReset s) = None"
  "stopReason (handleReset s) = None"
  "history_slot (handleReset s) = history_slot s"
  by (simp_all add: handleReset_def Let_def)

subsection \<open>The invariant is kept by every event\<close>

lemma handleStop_effect:
  "handleStop e reason t s = s
   \<or> (\<exists>started. status s = Running \<and> startedAtMs s = Some started
        \<and> handleStop e reason t s
          = (stopRecognition s)\<lparr>endedAtMs := Some (nowMs e), stopReason := Some reason,
               status := Stopped,
               history_slot := pushSessionToHistory (getItemThrows e) (setItemThrows e)
                                 (built_session e reason started s) (history_slot s)\<rparr>)"
proof (cases "status s = Running \<and> startedAtMs s \<noteq> None")
  case True
  then obtain started where "startedAtMs s = Some started" by auto
  with True show ?thesis using handleStop_running [of s started e reason t] by simp
next
  case False
  then show ?thesis using handleStop_noop [of s e reason t] by auto
qed

lemma stopRecognition_handler:
  "recognition (stopRecognition s) = Some r \<Longrightarrow> onend r"
  by (auto simp: stopRecognition_def Let_def split: option.splits)

lemma startRecognition_handler:
  "\<forall>r. recognition s = Some r \<longrightarrow> onend r \<Longrightarrow>
   recognition (startRecognition e s) = Some r \<Longrightarrow> onend r"
  by (auto simp: startRecognition_def ensureRecognition_def Let_def split: option.splits if_splits)

lemma app_inv_stopRecognition: "app_inv s \<Longrightarrow> app_inv (stopRecognition s)"
  by (auto simp: app_inv_def dest: stopRecognition_handler)

lemma app_inv_startRecognition: "app_inv s \<Longrightarrow> app_inv (startRecognition e s)"
  unfolding app_inv_def
  by (auto dest: startRecognition_handler)

lemma app_inv_handleStop: "app_inv s \<Longrightarrow> app_inv (handleStop e reason t s)"
  using handleStop_effect [of e reason t s]
  by (auto simp: app_inv_def dest: stopRecognition_handler)

lemma app_inv_handleStart: "app_inv s \<Longrightarrow> app_inv (handleStart e s)"
proof (cases "status s = Running")
  case True
  then show "app_inv s \<Longrightarrow> app_inv (handleStart e s)" by (simp add: handleStart_def)
next
  case False
  assume a: "app_inv s"
  have "app_inv ((stopRecognition s)\<lparr>startedAtMs := Some (nowMs e), endedAtMs := None,
             stopReason := None, lastTranscript := [], status := Running\<rparr>)"
    using app_inv_stopRecognition [OF a] by (simp add: app_inv_def)
  then show "app_inv (handleStart e s)"
    using False by (simp add: handleStart_idle app_inv_startRecognition)
qed

lemma app_inv_handleReset: "app_inv s \<Longrightarrow> app_inv (handleReset s)"
  using app_inv_stopRecognition [of s]
  by (simp add: handleReset_def Let_def app_inv_def)

lemma app_inv_lastTranscript: "app_inv (s\<lparr>lastTranscript := x\<rparr>) = app_inv s"
  by (simp add: app_inv_def)

lemma app_inv_maybeVoiceStop: "app_inv s \<Longrightarrow> app_inv (maybeVoiceStop e t s)"
  by (simp add: maybeVoiceStop_by_decision app_inv_handleStop split: option.splits)

lemma app_inv_simulate: "app_inv s \<Longrightarrow> app_inv (simulate_click e s)"
  by (simp add: simulate_click_by_decision app_inv_handleStop split: option.splits)

lemma app_inv_voice_change: "app_inv s \<Longrightarrow> app_inv (voiceEnabled_change e b s)"
proof -
  assume a: "app_inv s"
  show ?thesis
  proof (cases "speechSupported s")
    case False
    with a show ?thesis by (simp add: voiceEnabled_change_def)
  next
    case True
    have 1: "app_inv (s\<lparr>voiceEnabled_checked := b\<rparr>)"
      using a True by (simp add: app_inv_def)
    show ?thesis
      using True 1 app_inv_startRecognition [OF 1, of e]
        app_inv_stopRecognition [OF 1]
        app_inv_stopRecognition [OF app_inv_startRecognition [OF 1, of e]]
      by (cases b) (simp_all add: voiceEnabled_change_def Let_def)
  qed
qed

lemma app_inv_step: "app_inv s \<Longrightarrow> app_inv (step e ev s)"
proof (cases ev)
  case (Rec_result parts)
  assume "app_inv s"
  then show ?thesis
    using Rec_result
    by (simp add: recognition_onresult_def Let_def app_inv_maybeVoiceStop app_inv_lastTranscript)
next
  case Rec_end
  assume "app_inv s"
  then show ?thesis
    using Rec_end
    by (simp add: recognition_onend_def app_inv_startRecognition split: option.splits)
next
  case (Mode_change m)
  assume "app_inv s"
  then show ?thesis using Mode_change by (simp add: app_inv_def)
next
  case (Keyword_input k)
  assume "app_inv s"
  then show ?thesis using Keyword_input by (simp add: app_inv_def)
next
  case Rec_start
  assume "app_inv s"
  then show ?thesis using Rec_start by (simp add: app_inv_def recognition_onstart_def)
qed (simp_all add: app_inv_handleStart app_inv_handleStop app_inv_handleReset app_inv_simulate
      app_inv_voice_change recognition_onerror_def)

lemma app_inv_run: "app_inv s \<Longrightarrow> app_inv (run evs s)"
proof (induction evs arbitrary: s)
  case Nil
  then show ?case by simp
next
  case (Cons a evs)
  obtain e ev where "a = (e, ev)" by (cases a)
  with Cons show ?case by (simp add: app_inv_step)
qed

lemma app_inv_init: "app_inv (init supported checked mode kw sl)"
  by (simp add: app_inv_def init_def)

lemma app_inv_reachable: "app_inv (run evs (init supported checked mode kw sl))"
  by (simp add: app_inv_run app_inv_init)

subsection \<open>History entries\<close>

lemma handleStop_slot:
  "history_slot (handleStop e reason t s) = history_slot s
   \<or> (\<exists>started. history_slot (handleStop e reason t s)
         = pushSessionToHistory (getItemThrows e) (setItemThrows e)
             (built_session e reason started s) (history_slot s))"
  using handleStop_effect [of e reason t s] by auto

lemma built_session_lastTranscript [simp]:
  "built_session e reason started (s\<lparr>lastTranscript := x\<rparr>) = built_session e reason started s"
  by (simp add: built_session_def getVoiceMode_def getKeyword_def)

lemma step_slot:
  "history_slot (step e ev s) = history_slot s
   \<or> (\<exists>reason started. history_slot (step e ev s)
         = pushSessionToHistory (getItemThrows e) (setItemThrows e)
             (built_session e reason started s) (history_slot s))"
proof (cases ev)
  case Stop_click
  then show ?thesis using handleStop_slot [of e Manual "[]" s] by auto
next
  case Simulate_click
  show ?thesis
  proof (cases "simulate_decision s")
    case None
    with Simulate_click show ?thesis by (simp add: simulate_click_by_decision)
  next
    case (Some r)
    with Simulate_click show ?thesis
      using handleStop_slot [of e r "simulated s" s]
      by (auto simp: simulate_click_by_decision)
  qed
next
  case (Voice_change b)
  then show ?thesis by (simp add: voiceEnabled_change_def Let_def)
next
  case Rec_end
  then show ?thesis by (simp add: recognition_onend_def split: option.splits)
next
  case (Rec_result parts)
  let ?t = "trim (concat parts)"
  let ?s = "s\<lparr>lastTranscript := ?t\<rparr>"
  have "history_slot (maybeVoiceStop e ?t ?s) = history_slot ?s
     \<or> (\<exists>reason started. history_slot (maybeVoiceStop e ?t ?s)
         = pushSessionToHistory (getItemThrows e) (setItemThrows e)
             (built_session e reason started ?s) (history_slot ?s))"
  proof (cases "maybeVoiceStop_decision ?t ?s")
    case None
    then show ?thesis by (simp add: maybeVoiceStop_by_decision)
  next
    case (Some r)
    then show ?thesis
      using handleStop_slot [of e r ?t ?s] by (auto simp: maybeVoiceStop_by_decision)
  qed
  then show ?thesis
    using Rec_result by (auto simp: recognition_onresult_def Let_def)
qed (simp_all add: recognition_onstart_def recognition_onerror_def)

lemma step_history:
  assumes P: "\<And>e reason started s. P (built_session e reason started s)"
    and old: "\<forall>x\<in>set (loadHistory False (history_slot s)). P x"
  shows "\<forall>x\<in>set (loadHistory False (history_slot (step e ev s))). P x"
proof
  fix x assume x: "x \<in> set (loadHistory False (history_slot (step e ev s)))"
  from step_slot [of e ev s] show "P x"
  proof
    assume "history_slot (step e ev s) = history_slot s"
    with x old show ?thesis by simp
  next
    assume "\<exists>reason started. history_slot (step e ev s)
         = pushSessionToHistory (getItemThrows e) (setItemThrows e)
             (built_session e reason started s) (history_slot s)"
    then obtain reason started where
      "history_slot (step e ev s)
         = pushSessionToHistory (getItemThrows e) (setItemThrows e)
             (built_session e reason started s) (history_slot s)" by blast
    with x push_subset [of False "getItemThrows e" "setItemThrows e"
        "built_session e reason started s" "history_slot s"]
    have "x = built_session e reason started s \<or> x \<in> set (loadHistory False (history_slot s))"
      by auto
    with P old show ?thesis by auto
  qed
qed

lemma run_history:
  assumes P: "\<And>e reason started s. P (built_session e reason started s)"
  shows "\<forall>x\<in>set (loadHistory False (history_slot s)). P x \<Longrightarrow>
         \<forall>x\<in>set (loadHistory False (history_slot (run evs s))). P x"
proof (induction evs arbitrary: s)
  case Nil
  then show ?case by simp
next
  case (Cons a evs)
  obtain e ev where a: "a = (e, ev)" by (cases a)
  from step_history [of P s e ev, OF P Cons.prems]
  have "\<forall>x\<in>set (loadHistory False (history_slot (step e ev s))). P x" .
  from Cons.IH [OF this] a show ?case by simp
qed

lemma init_slot [simp]: "history_slot (init supported checked mode kw sl) = sl"
  by (simp add: init_def)

subsection \<open>The recognition stream\<close>

lemma onend_not_running: "status s \<noteq> Running \<Longrightarrow> recognition_onend e s = s"
  by (simp add: recognition_onend_def split: option.splits)

lemma onend_pending: "recognitionStarting s \<Longrightarrow> recognition_onend e s = s"
  by (simp add: recognition_onend_def startRecognition_def split: option.splits)

lemma onend_rearm:
  assumes "status s = Running" "voiceEnabled_checked s" "speechSupported s"
    "\<not> recognitionStarting s" "recognition s = Some r" "onend r"
  shows "recognition_onend e s
       = s\<lparr>recognition := Some (r\<lparr>starts := Suc (starts r)\<rparr>),
            recognitionStarting := \<not> startThrows e\<rparr>"
  using assms
  by (simp add: recognition_onend_def startRecognition_def ensureRecognition_def Let_def)

subsection \<open>The bot\<close>

lemma bot_inv_default: "bot_inv default_state"
  by (simp add: bot_inv_def default_state_def)

lemma bot_inv_start: "bot_inv (loadTimerState f) \<Longrightarrow> bot_inv (loadTimerState (timer_start c w f))"
  by (simp add: timer_start_def getTimerState_def updateTimerState_def saveTimerState_def
      Let_def loadTimerState_def bot_inv_def)

lemma bot_inv_stop: "bot_inv (loadTimerState f) \<Longrightarrow> bot_inv (loadTimerState (timer_stop c w f))"
  by (simp add: timer_stop_def getTimerState_def updateTimerState_def saveTimerState_def
      Let_def loadTimerState_def bot_inv_def)

lemma bot_inv_reset: "bot_inv (loadTimerState f) \<Longrightarrow> bot_inv (loadTimerState (timer_reset w f))"
  by (simp add: timer_reset_def getTimerState_def updateTimerState_def saveTimerState_def
      Let_def loadTimerState_def bot_inv_def)

lemma bot_inv_step: "bot_inv (loadTimerState f) \<Longrightarrow> bot_inv (loadTimerState (bot_step c f))"
proof -
  assume a: "bot_inv (loadTimerState f)"
  obtain clock w cmd where c: "c = (clock, w, cmd)" by (cases c)
  show ?thesis using a c
    by (cases cmd) (simp_all add: bot_inv_start bot_inv_stop bot_inv_reset)
qed

lemma bot_inv_run: "bot_inv (loadTimerState f) \<Longrightarrow> bot_inv (loadTimerState (bot_run cs f))"
  by (induction cs arbitrary: f) (simp_all add: bot_inv_step)

lemma bot_inv_fresh: "bot_inv (loadTimerState (bot_run cs No_file))"
  by (rule bot_inv_run) (simp add: loadTimerState_def bot_inv_default)

lemma timer_start_running:
  "t_status (getTimerState f) = Running \<Longrightarrow> timer_start c w f = f"
  by (simp add: timer_start_def)

lemma timer_start_written:
  "t_status (getTimerState (timer_start c False f)) = Running"
  by (simp add: timer_start_def getTimerState_def updateTimerState_def saveTimerState_def
      Let_def loadTimerState_def)

lemma built_session_duration: "0 \<le> durationMs (built_session e reason started s)"
  by (simp add: built_session_def)

lemma built_session_snippet: "transcriptSnippet (built_session e reason started s) = None"
  by (simp add: built_session_def)

lemma handleStop_newest:
  assumes "status s = Running" "startedAtMs s = Some started" "\<not> setItemThrows e"
  shows "loadHistory False (history_slot (handleStop e reason t s))
       = built_session e reason started s
         # take 9 (loadHistory (getItemThrows e) (history_slot s))"
  using assms
  by (simp add: handleStop_running pushSessionToHistory_def saveHistory_def Let_def
      loadHistory_simps HISTORY_LIMIT_def)

lemma timer_stop_duration:
  assumes "t_status (loadTimerState f) = Running" "t_startedAt (loadTimerState f) = Some started"
  shows "loadTimerState (timer_stop c False f)
       = (loadTimerState f)\<lparr>t_status := Stopped, t_endedAt := Some c,
            t_durationMs := Some (max 0 (c - started)), t_stopReason := Some Manual\<rparr>"
  using assms
  by (simp add: timer_stop_def getTimerState_def updateTimerState_def saveTimerState_def
      Let_def loadTimerState_def)

lemma handleStop_lastTranscript:
  "handleStop e reason t (s\<lparr>lastTranscript := x\<rparr>) = (handleStop e reason t s)\<lparr>lastTranscript := x\<rparr>"
  by (simp add: handleStop_def Let_def stopRecognition_def getVoiceMode_def getKeyword_def
      split: option.splits)

section \<open>Properties of the recognition stream\<close>

text \<open>
  Claim C4, as amended. In every state reached from \<open>init\<close> in which a recogniser exists:
  when the stream ends while the session is running, voice is enabled, speech is supported
  and no start is pending (\<open>recognitionStarting\<close> is false), the \<^verbatim>\<open>onend\<close> handler calls
  \<^verbatim>\<open>start()\<close> on the recogniser once more (also when that call throws) and the session keeps
  running; while a start is pending the handler's \<open>startRecognition\<close> returns at the
  debounce guard and nothing changes; when the session is not running the handler changes
  nothing; in particular a stream that ends after \<open>handleStop\<close> or \<open>handleReset\<close> is not
  started again.
\<close>

theorem recognition_rearm:
  assumes "s = run evs (init supported checked mode kw sl)" "recognition s = Some r"
  shows "(status s = Running \<and> voiceEnabled_checked s \<and> speechSupported s
            \<and> \<not> recognitionStarting s
          \<longrightarrow> recognition (recognition_onend e s) = Some (r\<lparr>starts := Suc (starts r)\<rparr>)
              \<and> recognitionStarting (recognition_onend e s) = (\<not> startThrows e)
              \<and> status (recognition_onend e s) = Running)
       \<and> (recognitionStarting s \<longrightarrow> recognition_onend e s = s)
       \<and> (status s \<noteq> Running \<longrightarrow> recognition_onend e s = s)
       \<and> recognition_onend e (handleStop e' reason t s) = handleStop e' reason t s
       \<and> recognition_onend e (handleReset s) = handleReset s"
proof -
  have inv: "app_inv s" using assms(1) by (simp add: app_inv_reachable)
  with assms(2) have h: "onend r" by (simp add: app_inv_def)
  have stop: "status (handleStop e' reason t s) \<noteq> Running"
  proof (cases "status s = Running")
    case True
    with inv obtain started where "startedAtMs s = Some started"
      by (auto simp: app_inv_def)
    with True show ?thesis by (simp add: handleStop_running)
  next
    case False
    then show ?thesis by (simp add: handleStop_noop)
  qed
  show ?thesis
    using assms(2) h stop
    by (auto simp: onend_rearm onend_pending onend_not_running)
qed

text \<open>
  After Start and the recogniser's \<^verbatim>\<open>start\<close> event, the end of the stream leads to a second
  \<^verbatim>\<open>start()\<close> call; after Stop or Reset it leads to none.
\<close>

theorem recognition_rearm_witness:
  "listening = run [(env0, Start_click), (env0, Rec_start)] (init True True None [] Absent)
   \<and> recognition listening = Some \<lparr>onend = True, starts = 1, stops = 0\<rparr>
   \<and> status listening = Running \<and> voiceEnabled_checked listening \<and> speechSupported listening
   \<and> \<not> recognitionStarting listening
   \<and> recognition (recognition_onend env0 listening)
       = Some \<lparr>onend = True, starts = 2, stops = 0\<rparr>
   \<and> recognition_onend env0 (handleStop env_later Manual [] listening)
       = handleStop env_later Manual [] listening
   \<and> recognition_onend env0 (handleReset listening) = handleReset listening"
proof -
  have r: "recognition listening = Some \<lparr>onend = True, starts = 1, stops = 0\<rparr>"
    by code_simp
  have c: "status listening = Running" "voiceEnabled_checked listening"
    "speechSupported listening" "\<not> recognitionStarting listening"
    by code_simp+
  from recognition_rearm [OF listening_def r, of env0 env_later Manual "[]"] c
  show ?thesis using r by (simp add: listening_def)
qed

text \<open>
  Claim C4 as stated fails while a start is pending: Start has called \<^verbatim>\<open>start()\<close> once, the
  stream ends before the recogniser reported \<^verbatim>\<open>start\<close> (as it does when the microphone is
  refused), the session is running with voice enabled and supported, and the handler
  leaves the state as it is: the count of \<^verbatim>\<open>start()\<close> calls stays at one.
\<close>

theorem recognition_pending_counterexample:
  "start_pending = run [(env0, Start_click)] (init True True None [] Absent)
   \<and> status start_pending = Running \<and> voiceEnabled_checked start_pending
   \<and> speechSupported start_pending
   \<and> recognition start_pending = Some \<lparr>onend = True, starts = 1, stops = 0\<rparr>
   \<and> recognition (recognition_onend env0 start_pending)
       = Some \<lparr>onend = True, starts = 1, stops = 0\<rparr>
   \<and> recognition_onend env0 start_pending = start_pending"
  by code_simp

section \<open>Properties of the session lifecycle\<close>

text \<open>
  Claim C5, as amended. After every sequence of events of the page and after every
  sequence of bot commands on a fresh state file, the end instant is non-null exactly when
  the status is stopped or finished. The page keeps no duration variable. The bot's record
  always holds a number as \<open>durationMs\<close>, never \<^verbatim>\<open>null\<close>: it is 0 while the status is idle
  or running.
\<close>

theorem ended_iff_stopped:
  "((endedAtMs (run evs (init supported checked mode kw sl)) \<noteq> None)
      = (status (run evs (init supported checked mode kw sl)) = Stopped
         \<or> status (run evs (init supported checked mode kw sl)) = Finished))
   \<and> ((t_endedAt (loadTimerState (bot_run cs No_file)) \<noteq> None)
      = (t_status (loadTimerState (bot_run cs No_file)) = Stopped
         \<or> t_status (loadTimerState (bot_run cs No_file)) = Finished))
   \<and> t_durationMs (loadTimerState (bot_run cs No_file)) \<noteq> None
   \<and> (t_status (loadTimerState (bot_run cs No_file)) = Idle
        \<or> t_status (loadTimerState (bot_run cs No_file)) = Running
      \<longrightarrow> t_durationMs (loadTimerState (bot_run cs No_file)) = Some 0)"
  using app_inv_reachable [of evs supported checked mode kw sl] bot_inv_fresh [of cs]
  unfolding app_inv_def bot_inv_def by auto

text \<open>A started and a stopped session, in the page and in the bot.\<close>

theorem ended_iff_stopped_witness:
  "status (run [(env0, Start_click)] (init True True None [] Absent)) = Running
   \<and> endedAtMs (run [(env0, Start_click)] (init True True None [] Absent)) = None
   \<and> status (run [(env0, Start_click), (env_later, Stop_click)] (init True True None [] Absent))
       = Stopped
   \<and> endedAtMs (run [(env0, Start_click), (env_later, Stop_click)] (init True True None [] Absent))
       = Some 6000
   \<and> t_status (loadTimerState (bot_run [(1000, False, Timer_start)] No_file)) = Running
   \<and> t_endedAt (loadTimerState (bot_run [(1000, False, Timer_start)] No_file)) = None
   \<and> t_durationMs (loadTimerState (bot_run [(1000, False, Timer_start)] No_file)) = Some 0
   \<and> t_status (loadTimerState (bot_run [(1000, False, Timer_start), (6000, False, Timer_stop)]
         No_file)) = Stopped
   \<and> t_endedAt (loadTimerState (bot_run [(1000, False, Timer_start), (6000, False, Timer_stop)]
         No_file)) = Some 6000"
proof -
  have a: "status (run [(env0, Start_click)] (init True True None [] Absent)) = Running"
    "status (run [(env0, Start_click), (env_later, Stop_click)] (init True True None [] Absent))
       = Stopped"
    "endedAtMs (run [(env0, Start_click), (env_later, Stop_click)] (init True True None [] Absent))
       = Some 6000"
    by code_simp+
  have b: "t_status (loadTimerState (bot_run [(1000, False, Timer_start)] No_file)) = Running"
    "t_status (loadTimerState (bot_run [(1000, False, Timer_start), (6000, False, Timer_stop)]
         No_file)) = Stopped"
    "t_endedAt (loadTimerState (bot_run [(1000, False, Timer_start), (6000, False, Timer_stop)]
         No_file)) = Some 6000"
    by code_simp+
  from ended_iff_stopped [of "[(env0, Start_click)]" True True None "[]" Absent
      "[(1000, False, Timer_start)]"] a b
  show ?thesis by simp
qed

text \<open>
  Claim C5 as stated fails for \<open>durationMs\<close> in the bot: the default record is idle and the
  record after \<^verbatim>\<open>timer-start\<close> is running, and both hold the non-null duration 0.
\<close>

theorem bot_duration_counterexample:
  "t_status (loadTimerState No_file) = Idle
   \<and> t_durationMs (loadTimerState No_file) = Some 0
   \<and> t_status (loadTimerState (bot_run [(1000, False, Timer_start)] No_file)) = Running
   \<and> t_durationMs (loadTimerState (bot_run [(1000, False, Timer_start)] No_file)) = Some 0
   \<and> t_endedAt (loadTimerState (bot_run [(1000, False, Timer_start)] No_file)) = None"
  by code_simp

text \<open>
  Claim C6. \<open>handleStart\<close> in a running session returns the state unchanged, so a second
  Start after a first one changes nothing, the start instant included. The bot's
  \<^verbatim>\<open>timer-start\<close> leaves the state file untouched when the stored status is running, so a
  second \<^verbatim>\<open>timer-start\<close> after a first one that was written changes nothing either.
\<close>

theorem double_start_noop:
  "(status s = Running \<longrightarrow> handleStart e s = s)
   \<and> handleStart e2 (handleStart e1 s) = handleStart e1 s
   \<and> startedAtMs (handleStart e2 (handleStart e1 s)) = startedAtMs (handleStart e1 s)
   \<and> (t_status (getTimerState f) = Running \<longrightarrow> timer_start c w f = f)
   \<and> timer_start c2 w2 (timer_start c1 False f) = timer_start c1 False f
   \<and> t_startedAt (getTimerState (timer_start c2 w2 (timer_start c1 False f)))
       = t_startedAt (getTimerState (timer_start c1 False f))"
proof -
  have a: "status s = Running \<longrightarrow> handleStart e s = s"
    by (simp add: handleStart_def)
  have b: "handleStart e2 (handleStart e1 s) = handleStart e1 s"
    by (simp add: handleStart_def [of e2])
  have c: "timer_start c2 w2 (timer_start c1 False f) = timer_start c1 False f"
    by (simp add: timer_start_running timer_start_written)
  from a b c show ?thesis by (simp add: timer_start_running)
qed

text \<open>A second Start at 6000 after a first one at 1000, in the page and in the bot.\<close>

theorem double_start_noop_witness:
  "status start_pending = Running \<and> startedAtMs start_pending = Some 1000
   \<and> handleStart env_later start_pending = start_pending
   \<and> startedAtMs (handleStart env_later (handleStart env0 (init True True None [] Absent)))
       = Some 1000
   \<and> t_status (getTimerState bot_started) = Running
   \<and> t_startedAt (getTimerState bot_started) = Some 1000
   \<and> timer_start 6000 False bot_started = bot_started
   \<and> t_startedAt (getTimerState (timer_start 6000 False (timer_start 1000 False No_file)))
       = Some 1000"
proof -
  have a: "status start_pending = Running" "startedAtMs start_pending = Some 1000"
    "t_status (getTimerState bot_started) = Running"
    "t_startedAt (getTimerState bot_started) = Some 1000"
    by code_simp+
  have b: "startedAtMs (handleStart env0 (init True True None [] Absent)) = Some 1000"
    "t_startedAt (getTimerState (timer_start 1000 False No_file)) = Some 1000"
    by code_simp+
  from double_start_noop [of start_pending env_later env_later env_later bot_started 6000 False
      6000 False 6000]
  have 1: "handleStart env_later start_pending = start_pending"
    "timer_start 6000 False bot_started = bot_started"
    using a by simp_all
  from double_start_noop [of "init True True None [] Absent" env0 env_later env0 No_file 0 False
      6000 False 1000] b
  have 2: "startedAtMs (handleStart env_later (handleStart env0 (init True True None [] Absent)))
       = Some 1000"
    "t_startedAt (getTimerState (timer_start 6000 False (timer_start 1000 False No_file)))
       = Some 1000"
    by simp_all
  from a 1 2 show ?thesis by simp
qed

text \<open>
  Claim C7. For every sequence of events and every clock reading, all sessions in the
  page's history have a duration of at least zero (given that those stored before had),
  and a stop records \<open>max 0 (ended - started)\<close>; after every sequence of bot commands on
  a fresh state file the stored \<open>durationMs\<close> is a number of at least zero, and
  \<^verbatim>\<open>timer-stop\<close> records \<open>max 0 (ended - started)\<close>.
\<close>

theorem duration_never_negative:
  "((\<forall>x\<in>set (loadHistory False sl). 0 \<le> durationMs x)
      \<longrightarrow> (\<forall>x\<in>set (loadHistory False
                (history_slot (run evs (init supported checked mode kw sl)))). 0 \<le> durationMs x))
   \<and> (status s = Running \<and> startedAtMs s = Some started \<and> \<not> setItemThrows e
      \<longrightarrow> (\<exists>x rest. loadHistory False (history_slot (handleStop e reason t s)) = x # rest
             \<and> durationMs x = max 0 (nowMs e - started) \<and> 0 \<le> durationMs x))
   \<and> (\<exists>d. t_durationMs (loadTimerState (bot_run cs No_file)) = Some d \<and> 0 \<le> d)
   \<and> (t_status (loadTimerState f) = Running \<and> t_startedAt (loadTimerState f) = Some started'
      \<longrightarrow> t_durationMs (loadTimerState (timer_stop c False f)) = Some (max 0 (c - started')))"
proof (intro conjI impI)
  assume "\<forall>x\<in>set (loadHistory False sl). 0 \<le> durationMs x"
  then have "\<forall>x\<in>set (loadHistory False (history_slot (init supported checked mode kw sl))).
      0 \<le> durationMs x"
    by simp
  from run_history [of "\<lambda>x. 0 \<le> durationMs x", OF built_session_duration this]
  show "\<forall>x\<in>set (loadHistory False
                (history_slot (run evs (init supported checked mode kw sl)))). 0 \<le> durationMs x" .
next
  assume "status s = Running \<and> startedAtMs s = Some started \<and> \<not> setItemThrows e"
  then have "loadHistory False (history_slot (handleStop e reason t s))
       = built_session e reason started s
         # take 9 (loadHistory (getItemThrows e) (history_slot s))"
    by (simp add: handleStop_newest)
  moreover have "durationMs (built_session e reason started s) = max 0 (nowMs e - started)"
    by (simp add: built_session_def)
  ultimately show "\<exists>x rest. loadHistory False (history_slot (handleStop e reason t s)) = x # rest
             \<and> durationMs x = max 0 (nowMs e - started) \<and> 0 \<le> durationMs x"
    by simp
next
  show "\<exists>d. t_durationMs (loadTimerState (bot_run cs No_file)) = Some d \<and> 0 \<le> d"
    using bot_inv_fresh [of cs] by (simp add: bot_inv_def)
next
  assume "t_status (loadTimerState f) = Running \<and> t_startedAt (loadTimerState f) = Some started'"
  then show "t_durationMs (loadTimerState (timer_stop c False f)) = Some (max 0 (c - started'))"
    by (simp add: timer_stop_duration)
qed

text \<open>A stop whose clock reading, 400, lies before the start, 1000, records the duration 0.\<close>

theorem duration_never_negative_witness:
  "loadHistory False (Absent :: FlowrSession slot) = []
   \<and> map durationMs (loadHistory False (history_slot
         (run [(env0, Start_click), (env_earlier, Stop_click)] (init True True None [] Absent))))
       = [0]
   \<and> status start_pending = Running \<and> startedAtMs start_pending = Some 1000
   \<and> nowMs env_earlier = 400 \<and> \<not> setItemThrows env_earlier
   \<and> map durationMs (loadHistory False (history_slot (handleStop env_earlier Manual [] start_pending)))
       = [0]
   \<and> t_durationMs (loadTimerState (bot_run [(1000, False, Timer_start), (400, False, Timer_stop)]
         No_file)) = Some 0
   \<and> t_status (loadTimerState bot_started) = Running
   \<and> t_startedAt (loadTimerState bot_started) = Some 1000
   \<and> t_durationMs (loadTimerState (timer_stop 400 False bot_started)) = Some 0
   \<and> t_durationMs (loadTimerState (timer_stop 6000 False bot_started)) = Some 5000"
proof -
  have a: "status start_pending = Running" "startedAtMs start_pending = Some 1000"
    "nowMs env_earlier = 400" "\<not> setItemThrows env_earlier"
    "t_status (loadTimerState bot_started) = Running"
    "t_startedAt (loadTimerState bot_started) = Some 1000"
    by code_simp+
  have v: "map durationMs (loadHistory False (history_slot
         (run [(env0, Start_click), (env_earlier, Stop_click)] (init True True None [] Absent))))
       = [0]"
    "map durationMs (loadHistory False (history_slot (handleStop env_earlier Manual [] start_pending)))
       = [0]"
    "t_durationMs (loadTimerState (bot_run [(1000, False, Timer_start), (400, False, Timer_stop)]
         No_file)) = Some 0"
    by code_simp+
  note t = duration_never_negative [of Absent "[(env0, Start_click), (env_earlier, Stop_click)]"
      True True None "[]" start_pending 1000 env_earlier Manual "[]"
      "[(1000, False, Timer_start), (400, False, Timer_stop)]" bot_started 1000]
  from t [of 400] a have s1: "t_durationMs (loadTimerState (timer_stop 400 False bot_started)) = Some 0"
    by simp
  from t [of 6000] a have s2: "t_durationMs (loadTimerState (timer_stop 6000 False bot_started)) = Some 5000"
    by simp
  from a v s1 s2 show ?thesis by (simp add: loadHistory_simps)
qed

text \<open>
  Claim C9. \<open>handleStop\<close> does not depend on the transcript it is given. For a running
  session it appends the record whose fields are the identifier, the two instants, the
  clamped duration, the reason, the voice flag, the mode and the configured keyword, with
  \<open>transcriptSnippet\<close> null. Whatever chunks the recogniser delivers, the slot afterwards
  is what it was, or what a stop with an empty transcript writes. After every sequence of
  events every stored session has \<open>transcriptSnippet\<close> null (given that those stored before
  had).
\<close>

theorem transcript_never_stored:
  "handleStop e reason t s = handleStop e reason [] s
   \<and> (status s = Running \<and> startedAtMs s = Some started
      \<longrightarrow> history_slot (handleStop e reason t s)
          = pushSessionToHistory (getItemThrows e) (setItemThrows e)
              \<lparr>session_id = uuid e, startedAt = started, endedAt = nowMs e,
               durationMs = max 0 (nowMs e - started), session_stopReason = reason,
               voiceEnabled = voiceEnabled_checked s,
               voiceMode = (if voiceEnabled_checked s then Some (getVoiceMode s) else None),
               keyword = (if voiceEnabled_checked s \<and> getVoiceMode s = Keyword
                          then Some (getKeyword s) else None),
               transcriptSnippet = None\<rparr>
              (history_slot s))
   \<and> (history_slot (recognition_onresult e parts s) = history_slot s
      \<or> history_slot (recognition_onresult e parts s)
          = history_slot (handleStop e Voice_any [] s)
      \<or> history_slot (recognition_onresult e parts s)
          = history_slot (handleStop e Voice_keyword [] s))
   \<and> ((\<forall>x\<in>set (loadHistory False sl). transcriptSnippet x = None)
      \<longrightarrow> (\<forall>x\<in>set (loadHistory False
                (history_slot (run evs (init supported checked mode kw sl)))).
             transcriptSnippet x = None))"
proof (intro conjI impI)
  show "handleStop e reason t s = handleStop e reason [] s"
    by (rule handleStop_transcript_free)
next
  assume "status s = Running \<and> startedAtMs s = Some started"
  then show "history_slot (handleStop e reason t s)
          = pushSessionToHistory (getItemThrows e) (setItemThrows e)
              \<lparr>session_id = uuid e, startedAt = started, endedAt = nowMs e,
               durationMs = max 0 (nowMs e - started), session_stopReason = reason,
               voiceEnabled = voiceEnabled_checked s,
               voiceMode = (if voiceEnabled_checked s then Some (getVoiceMode s) else None),
               keyword = (if voiceEnabled_checked s \<and> getVoiceMode s = Keyword
                          then Some (getKeyword s) else None),
               transcriptSnippet = None\<rparr>
              (history_slot s)"
    by (simp add: handleStop_running built_session_def)
next
  let ?t = "trim (concat parts)"
  have k: "\<And>r. history_slot (handleStop e r ?t (s\<lparr>lastTranscript := ?t\<rparr>))
      = history_slot (handleStop e r [] s)"
    by (simp add: handleStop_lastTranscript handleStop_transcript_free [of e _ ?t s "[]"])
  show "history_slot (recognition_onresult e parts s) = history_slot s
      \<or> history_slot (recognition_onresult e parts s)
          = history_slot (handleStop e Voice_any [] s)
      \<or> history_slot (recognition_onresult e parts s)
          = history_slot (handleStop e Voice_keyword [] s)"
    by (auto simp: recognition_onresult_def Let_def maybeVoiceStop_def k)
next
  assume "\<forall>x\<in>set (loadHistory False sl). transcriptSnippet x = None"
  then have "\<forall>x\<in>set (loadHistory False (history_slot (init supported checked mode kw sl))).
      transcriptSnippet x = None"
    by simp
  from run_history [of "\<lambda>x. transcriptSnippet x = None", OF built_session_snippet this]
  show "\<forall>x\<in>set (loadHistory False
                (history_slot (run evs (init supported checked mode kw sl)))).
             transcriptSnippet x = None" .
qed

text \<open>
  The utterance \<^verbatim>\<open>"Please STOP now"\<close> stops a session listening for \<^verbatim>\<open>" Stop "\<close>: the stored
  record holds the keyword \<^verbatim>\<open>"Stop"\<close> and no transcript.
\<close>

theorem transcript_never_stored_witness:
  "status listening_for_stop = Running \<and> startedAtMs listening_for_stop = Some 1000
   \<and> loadHistory False (Absent :: FlowrSession slot) = []
   \<and> history_slot (recognition_onresult env_later [''Please STOP'', '' now ''] listening_for_stop)
       = Json_array
           [\<lparr>session_id = ''session-2'', startedAt = 1000, endedAt = 6000, durationMs = 5000,
             session_stopReason = Voice_keyword, voiceEnabled = True,
             voiceMode = Some Keyword, keyword = Some ''Stop'', transcriptSnippet = None\<rparr>]
   \<and> history_slot (handleStop env_later Voice_keyword ''Please STOP now'' listening_for_stop)
       = history_slot (recognition_onresult env_later [''Please STOP'', '' now ''] listening_for_stop)
   \<and> map transcriptSnippet (loadHistory False (history_slot
         (run [(env0, Start_click), (env_later, Rec_result [''Please STOP'', '' now ''])]
            (init True True (Some ''keyword'') '' Stop '' Absent))))
       = [None]"
proof -
  have a: "status listening_for_stop = Running" "startedAtMs listening_for_stop = Some 1000"
    by code_simp+
  have v: "history_slot (recognition_onresult env_later [''Please STOP'', '' now ''] listening_for_stop)
       = Json_array
           [\<lparr>session_id = ''session-2'', startedAt = 1000, endedAt = 6000, durationMs = 5000,
             session_stopReason = Voice_keyword, voiceEnabled = True,
             voiceMode = Some Keyword, keyword = Some ''Stop'', transcriptSnippet = None\<rparr>]"
    by code_simp
  have g: "voiceEnabled_checked listening_for_stop" "getVoiceMode listening_for_stop = Keyword"
    "getKeyword listening_for_stop = ''Stop''" "history_slot listening_for_stop = Absent"
    "uuid env_later = ''session-2''" "nowMs env_later = 6000"
    "\<not> getItemThrows env_later" "\<not> setItemThrows env_later"
    by code_simp+
  have m: "map transcriptSnippet (loadHistory False (history_slot
         (run [(env0, Start_click), (env_later, Rec_result [''Please STOP'', '' now ''])]
            (init True True (Some ''keyword'') '' Stop '' Absent))))
       = [None]"
    by code_simp
  note t = transcript_never_stored [of env_later Voice_keyword "''Please STOP now''"
      listening_for_stop 1000 "[''Please STOP'', '' now '']" Absent
      "[(env0, Start_click), (env_later, Rec_result [''Please STOP'', '' now ''])]"
      True True "Some ''keyword''" "'' Stop ''"]
  from t [THEN conjunct2, THEN conjunct1] a g
  have "history_slot (handleStop env_later Voice_keyword ''Please STOP now'' listening_for_stop)
      = Json_array
           [\<lparr>session_id = ''session-2'', startedAt = 1000, endedAt = 6000, durationMs = 5000,
             session_stopReason = Voice_keyword, voiceEnabled = True,
             voiceMode = Some Keyword, keyword = Some ''Stop'', transcriptSnippet = None\<rparr>]"
    by (simp add: pushSessionToHistory_def saveHistory_def Let_def loadHistory_simps
        HISTORY_LIMIT_def)
  with a v m show ?thesis by (simp add: loadHistory_simps)
qed

end
